theory Spec2Isabelle
  imports Complex_Main "HOL-Library.Sublist"
begin

section \<open>Values exchanged with the API\<close>

text \<open>
  \<^verbatim>\<open>get_all_agent_configuration\<close> hands back parsed JSON: Python dicts, lists, strings,
  numbers, booleans and \<^verbatim>\<open>None\<close>. A dict is an association list read with \<open>map_of\<close>
  (each key once). A finite float is the rational it denotes, which is all that
  \<^verbatim>\<open>==\<close> against an int looks at; rounding of floats is not modelled.
\<close>

datatype json =
    JNull
  | JBool bool
  | JInt int
  | JFloat rat
  | JStr string
  | JList "json list"
  | JDict "(string \<times> json) list"

text \<open>
  The exceptions that can leave \<^verbatim>\<open>wait_for_repo_status_paused\<close>. \<open>Raised e\<close> is an
  exception \<open>e\<close> thrown inside the awaited API call; the method has no \<^verbatim>\<open>try\<close>, so it
  leaves as it is. \<open>AttributeError\<close> and \<open>TypeError\<close> come from \<^verbatim>\<open>.get\<close> on a value
  that is no dict and from iterating a value that is no collection.
\<close>

datatype 'e py_error =
    ValueError string
  | TimeoutError string
  | KeyError string
  | AttributeError
  | TypeError
  | Raised 'e

text \<open>\<^verbatim>\<open>d.get(k)\<close>: the value, or \<^verbatim>\<open>None\<close> when the key is absent.\<close>

definition dict_get :: "(string \<times> json) list \<Rightarrow> string \<Rightarrow> json" where
  "dict_get d k = (case map_of d k of None \<Rightarrow> JNull | Some v \<Rightarrow> v)"

text \<open>
  \<^verbatim>\<open>v == n\<close> for an int \<open>n\<close>: Python compares numbers by value, and \<^verbatim>\<open>True == 1\<close>,
  \<^verbatim>\<open>False == 0\<close>.
\<close>

fun eq_int :: "json \<Rightarrow> int \<Rightarrow> bool" where
  "eq_int (JInt i) n = (i = n)"
| "eq_int (JBool b) n = ((if b then 1 else 0) = n)"
| "eq_int (JFloat q) n = (q = of_int n)"
| "eq_int _ n = False"

text \<open>\<^verbatim>\<open>v == s\<close> for a str \<open>s\<close>: only an equal string is equal.\<close>

fun eq_str :: "json \<Rightarrow> string \<Rightarrow> bool" where
  "eq_str (JStr t) s = (t = s)"
| "eq_str _ s = False"

text \<open>
  What a \<^verbatim>\<open>for\<close> over the value yields: the elements of a list, the keys of a dict,
  the characters of a string; anything else is not iterable.
\<close>

fun py_iter :: "json \<Rightarrow> 'e py_error + json list" where
  "py_iter (JList xs) = Inr xs"
| "py_iter (JDict d) = Inr (map (\<lambda>kv. JStr (fst kv)) d)"
| "py_iter (JStr s) = Inr (map (\<lambda>c. JStr [c]) s)"
| "py_iter _ = Inl TypeError"

section \<open>Rendering an int, as an f-string does\<close>

definition digit_char :: "nat \<Rightarrow> char" where
  "digit_char d = ''0123456789'' ! d"

fun str_nat :: "nat \<Rightarrow> string" where
  "str_nat n = (if n < 10 then [digit_char n] else str_nat (n div 10) @ [digit_char (n mod 10)])"

declare str_nat.simps [simp del]

definition str_int :: "int \<Rightarrow> string" where
  "str_int i = (if i < 0 then CHR ''-'' # str_nat (nat (- i)) else str_nat (nat i))"

section \<open>One evaluation of a response (lines 103 to 119)\<close>

text \<open>
  \<^verbatim>\<open>next((c for c in config_list if c.get("integrationId") == integration_id), None)\<close>:
  the entries are visited in order and the search stops at the first hit, so an entry
  behind the hit is never touched, and an entry before it that is no dict raises.
\<close>

fun find_config :: "json list \<Rightarrow> int \<Rightarrow> 'e py_error + (string \<times> json) list option" where
  "find_config [] integration_id = Inr None"
| "find_config (JDict c # cs) integration_id =
     (if eq_int (dict_get c ''integrationId'') integration_id then Inr (Some c)
      else find_config cs integration_id)"
| "find_config (_ # cs) integration_id = Inl AttributeError"

text \<open>
  \<^verbatim>\<open>next((item for item in config["items"] if item.get("name") == repository_name), None)\<close>
\<close>

fun find_item :: "json list \<Rightarrow> string \<Rightarrow> 'e py_error + (string \<times> json) list option" where
  "find_item [] repository_name = Inr None"
| "find_item (JDict item # items) repository_name =
     (if eq_str (dict_get item ''name'') repository_name then Inr (Some item)
      else find_item items repository_name)"
| "find_item (_ # items) repository_name = Inl AttributeError"

text \<open>The two \<^verbatim>\<open>ValueError\<close> messages; the cross mark U+274C is its three UTF-8 bytes.\<close>

definition cross_mark :: string where
  "cross_mark = [CHR 0xE2, CHR 0x9D, CHR 0x8C]"

definition invalid_config_msg :: string where
  "invalid_config_msg = cross_mark @ '' Invalid integration configuration or missing items list''"

definition not_found_msg :: "string \<Rightarrow> string" where
  "not_found_msg repository_name =
     cross_mark @ '' Repository '' @ [CHR 0x27] @ repository_name @ [CHR 0x27]
       @ '' not found in integration items.''"

text \<open>
  Lines 115 to 119 on the matched item. The f-string of the debug call on line 115 reads
  \<^verbatim>\<open>matching_item['status']\<close> before the comparison, so a missing key raises there.
  \<open>Inr (Some item)\<close> is the \<^verbatim>\<open>return\<close>; \<open>Inr None\<close> falls through to the sleep.
\<close>

definition check_status :: "(string \<times> json) list \<Rightarrow> 'e py_error + json option" where
  "check_status matching_item =
     (case map_of matching_item ''status'' of
        None \<Rightarrow> Inl (KeyError ''status'')
      | Some s \<Rightarrow> if eq_str s ''PAUSED'' then Inr (Some (JDict matching_item)) else Inr None)"

text \<open>Lines 110 to 119, on the value of \<^verbatim>\<open>config["items"]\<close>.\<close>

definition check_items :: "json list \<Rightarrow> string \<Rightarrow> 'e py_error + json option" where
  "check_items items repository_name =
     (case find_item items repository_name of
        Inl e \<Rightarrow> Inl e
      | Inr None \<Rightarrow> Inl (ValueError (not_found_msg repository_name))
      | Inr (Some matching_item) \<Rightarrow>
          if matching_item = [] then Inl (ValueError (not_found_msg repository_name))
          else check_status matching_item)"

text \<open>\<^verbatim>\<open>isinstance(v, list)\<close>\<close>

fun isinstance_list :: "json \<Rightarrow> bool" where
  "isinstance_list (JList xs) = True"
| "isinstance_list _ = False"

text \<open>
  Lines 107 to 119, on the result of the search for the config. \<^verbatim>\<open>not config\<close> holds for
  \<^verbatim>\<open>None\<close> and for an empty dict; \<^verbatim>\<open>config.get("items")\<close> of a missing key is
  \<^verbatim>\<open>None\<close>, which is no list. Behind the test, \<^verbatim>\<open>config["items"]\<close> is that list.
\<close>

definition check_config :: "(string \<times> json) list option \<Rightarrow> string \<Rightarrow> 'e py_error + json option" where
  "check_config config repository_name =
     (case config of
        None \<Rightarrow> Inl (ValueError invalid_config_msg)
      | Some c \<Rightarrow>
          if c = [] \<or> \<not> isinstance_list (dict_get c ''items'')
          then Inl (ValueError invalid_config_msg)
          else (case py_iter (dict_get c ''items'') of
                  Inl e \<Rightarrow> Inl e
                | Inr items \<Rightarrow> check_items items repository_name))"

text \<open>
  Lines 103 to 119. \<^verbatim>\<open>response.get("configuration", [])\<close> needs a dict; the default
  is taken only when the key is absent.
\<close>

definition check_response :: "json \<Rightarrow> int \<Rightarrow> string \<Rightarrow> 'e py_error + json option" where
  "check_response response integration_id repository_name =
     (case response of
        JDict r \<Rightarrow>
          (case py_iter (case map_of r ''configuration'' of None \<Rightarrow> JList [] | Some v \<Rightarrow> v) of
             Inl e \<Rightarrow> Inl e
           | Inr config_list \<Rightarrow>
               (case find_config config_list integration_id of
                  Inl e \<Rightarrow> Inl e
                | Inr config \<Rightarrow> check_config config repository_name))
      | _ \<Rightarrow> Inl AttributeError)"

section \<open>The world around the method\<close>

text \<open>
  The method reads the wall clock, awaits the API and sleeps. The environment is given
  by two oracles: \<open>clock env k\<close> is the value of the \<open>k\<close>-th call of \<^verbatim>\<open>time.time()\<close>
  (seconds, counted from 0), and \<open>api env k w i\<close> is what the \<open>k\<close>-th call of
  \<^verbatim>\<open>get_all_agent_configuration(w, i)\<close> does: return a response or raise. Nothing is
  assumed of either. The world counts the calls made so far and records the awaited
  calls in order. Logging does not touch the control flow and is left out, except for
  the key access inside the f-string of line 115.
\<close>

record 'e env =
  clock :: "nat \<Rightarrow> rat"
  api :: "nat \<Rightarrow> int \<Rightarrow> int \<Rightarrow> 'e + json"

datatype event = Fetch int int | Sleep rat

record world =
  clock_reads :: nat
  api_calls :: nat
  events :: "event list"

definition world0 :: world where
  "world0 = \<lparr>clock_reads = 0, api_calls = 0, events = []\<rparr>"

definition time_time :: "'e env \<Rightarrow> world \<Rightarrow> rat \<times> world" where
  "time_time env w = (clock env (clock_reads w), w\<lparr>clock_reads := Suc (clock_reads w)\<rparr>)"

definition get_all_agent_configuration ::
  "'e env \<Rightarrow> int \<Rightarrow> int \<Rightarrow> world \<Rightarrow> ('e + json) \<times> world" where
  "get_all_agent_configuration env workspace_id integration_id w =
     (api env (api_calls w) workspace_id integration_id,
      w\<lparr>api_calls := Suc (api_calls w),
        events := events w @ [Fetch workspace_id integration_id]\<rparr>)"

definition asyncio_sleep :: "rat \<Rightarrow> world \<Rightarrow> world" where
  "asyncio_sleep delay w = w\<lparr>events := events w @ [Sleep delay]\<rparr>"

section \<open>wait_for_repo_status_paused\<close>

text \<open>The message of line 123; the stopwatch is U+23F1 U+FE0F in UTF-8.\<close>

definition stopwatch :: string where
  "stopwatch = [CHR 0xE2, CHR 0x8F, CHR 0xB1, CHR 0xEF, CHR 0xB8, CHR 0x8F]"

definition timeout_msg :: "string \<Rightarrow> int \<Rightarrow> string" where
  "timeout_msg repository_name timeout_ms =
     stopwatch @ '' Timeout: Repo '' @ [CHR 0x27] @ repository_name @ [CHR 0x27]
       @ '' status did not become '' @ [CHR 0x27] @ ''PAUSED'' @ [CHR 0x27]
       @ '' within '' @ str_int (timeout_ms div 1000) @ ''s''"

text \<open>
  The \<^verbatim>\<open>while\<close> loop of lines 100 to 121 and the \<^verbatim>\<open>raise\<close> of line 123 behind it.
  The loop need not end (a clock that stands still never reaches the deadline), so the
  result is an option: \<open>None\<close> is a run that never returns.
\<close>

partial_function (option) poll ::
  "'e env \<Rightarrow> int \<Rightarrow> int \<Rightarrow> string \<Rightarrow> int \<Rightarrow> int \<Rightarrow> rat \<Rightarrow> world
     \<Rightarrow> (('e py_error + json) \<times> world) option" where
  "poll env workspace_id integration_id repository_name timeout_ms interval_ms start_time w =
     (case time_time env w of (now, w1) \<Rightarrow>
        if (now - start_time) * 1000 < of_int timeout_ms then
          (case get_all_agent_configuration env workspace_id integration_id w1 of
             (Inl e, w2) \<Rightarrow> Some (Inl (Raised e), w2)
           | (Inr response, w2) \<Rightarrow>
               (case check_response response integration_id repository_name of
                  Inl err \<Rightarrow> Some (Inl err, w2)
                | Inr (Some matching_item) \<Rightarrow> Some (Inr matching_item, w2)
                | Inr None \<Rightarrow>
                    poll env workspace_id integration_id repository_name timeout_ms interval_ms
                      start_time (asyncio_sleep (of_int interval_ms / 1000) w2)))
        else Some (Inl (TimeoutError (timeout_msg repository_name timeout_ms)), w1))"

declare poll.simps [code]

definition wait_for_repo_status_paused ::
  "'e env \<Rightarrow> int \<Rightarrow> int \<Rightarrow> string \<Rightarrow> int \<Rightarrow> int
     \<Rightarrow> (('e py_error + json) \<times> world) option" where
  "wait_for_repo_status_paused env workspace_id integration_id repository_name timeout_ms interval_ms =
     (case time_time env world0 of (start_time, w) \<Rightarrow>
        poll env workspace_id integration_id repository_name timeout_ms interval_ms start_time w)"

section \<open>Vocabulary of the properties\<close>

text \<open>
  Poll cycle \<open>k\<close> (counted from 0) is the \<open>k\<close>-th pass through the loop body. Its loop
  condition is the \<open>(k+1)\<close>-th clock reading against the first one; \<open>before_deadline\<close>
  says that the condition of cycle \<open>k\<close> is true.
\<close>

definition before_deadline :: "'e env \<Rightarrow> int \<Rightarrow> nat \<Rightarrow> bool" where
  "before_deadline env timeout_ms k \<longleftrightarrow>
     (clock env (Suc k) - clock env 0) * 1000 < of_int timeout_ms"

text \<open>
  The outcome of the fetch of cycle \<open>k\<close> and the evaluation of its response: an
  exception, the item to return, or \<open>Inr None\<close> when only the sleep is left.
\<close>

definition verdict :: "'e env \<Rightarrow> int \<Rightarrow> int \<Rightarrow> string \<Rightarrow> nat \<Rightarrow> 'e py_error + json option" where
  "verdict env workspace_id integration_id repository_name k =
     (case api env k workspace_id integration_id of
        Inl e \<Rightarrow> Inl (Raised e)
      | Inr response \<Rightarrow> check_response response integration_id repository_name)"

text \<open>
  Cycle \<open>k\<close> is pending when its fetch returns a response in which the repository is
  found with a status other than PAUSED, the one case that goes on to the sleep
  (\<open>pending_iff\<close> below spells this out on the response).
\<close>

definition pending :: "'e env \<Rightarrow> int \<Rightarrow> int \<Rightarrow> string \<Rightarrow> nat \<Rightarrow> bool" where
  "pending env workspace_id integration_id repository_name k \<longleftrightarrow>
     verdict env workspace_id integration_id repository_name k = Inr None"

text \<open>The awaited calls of \<open>n\<close> full cycles: fetch, sleep, fetch, sleep, ...\<close>

definition cycles :: "int \<Rightarrow> int \<Rightarrow> int \<Rightarrow> nat \<Rightarrow> event list" where
  "cycles workspace_id integration_id interval_ms n =
     concat (replicate n [Fetch workspace_id integration_id, Sleep (of_int interval_ms / 1000)])"

text \<open>The world at the head of the loop after \<open>n\<close> full cycles.\<close>

definition at_cycle :: "int \<Rightarrow> int \<Rightarrow> int \<Rightarrow> nat \<Rightarrow> world" where
  "at_cycle workspace_id integration_id interval_ms n =
     \<lparr>clock_reads = Suc n, api_calls = n,
      events = cycles workspace_id integration_id interval_ms n\<rparr>"

text \<open>
  The world in which a run ends inside cycle \<open>n\<close>, right behind its fetch: \<open>n + 1\<close>
  fetches, \<open>n\<close> sleeps, and the fetch is the last awaited call.
\<close>

definition stopped_in_cycle :: "int \<Rightarrow> int \<Rightarrow> int \<Rightarrow> nat \<Rightarrow> world" where
  "stopped_in_cycle workspace_id integration_id interval_ms n =
     \<lparr>clock_reads = Suc (Suc n), api_calls = Suc n,
      events = cycles workspace_id integration_id interval_ms n
                 @ [Fetch workspace_id integration_id]\<rparr>"

text \<open>
  The world in which a run ends at the loop condition of cycle \<open>n\<close>: \<open>n\<close> fetches and
  \<open>n\<close> sleeps.
\<close>

definition timed_out_at :: "int \<Rightarrow> int \<Rightarrow> int \<Rightarrow> nat \<Rightarrow> world" where
  "timed_out_at workspace_id integration_id interval_ms n =
     \<lparr>clock_reads = Suc (Suc n), api_calls = n,
      events = cycles workspace_id integration_id interval_ms n\<rparr>"

text \<open>How often each awaited call occurs in a record of events.\<close>

definition fetch_count :: "event list \<Rightarrow> nat" where
  "fetch_count es = length (filter (\<lambda>e. case e of Fetch w i \<Rightarrow> True | Sleep d \<Rightarrow> False) es)"

definition sleep_count :: "event list \<Rightarrow> nat" where
  "sleep_count es = length (filter (\<lambda>e. case e of Fetch w i \<Rightarrow> False | Sleep d \<Rightarrow> True) es)"

text \<open>
  The shape of a response. \<open>other_config i x\<close>: the entry \<open>x\<close> is a config dict of
  another integration; \<open>other_item s x\<close>: the entry \<open>x\<close> is an item dict of another
  name. \<open>config_at\<close>: the response is a dict whose configuration list is
  \<open>before @ [c] @ after\<close> and \<open>c\<close> is its first config of the integration.
  \<open>item_at\<close>: the items of \<open>c\<close> are the list \<open>before @ [item] @ after\<close> and \<open>item\<close> is
  the first one of the name. Nothing is asked of the entries behind.
\<close>

definition other_config :: "int \<Rightarrow> json \<Rightarrow> bool" where
  "other_config integration_id x =
     (case x of JDict c \<Rightarrow> \<not> eq_int (dict_get c ''integrationId'') integration_id | _ \<Rightarrow> False)"

definition other_item :: "string \<Rightarrow> json \<Rightarrow> bool" where
  "other_item repository_name x =
     (case x of JDict item \<Rightarrow> \<not> eq_str (dict_get item ''name'') repository_name | _ \<Rightarrow> False)"

definition config_list :: "json \<Rightarrow> json list option" where
  "config_list response =
     (case response of
        JDict r \<Rightarrow> (case map_of r ''configuration'' of
                     None \<Rightarrow> Some []
                   | Some (JList cs) \<Rightarrow> Some cs
                   | Some _ \<Rightarrow> None)
      | _ \<Rightarrow> None)"

definition config_at ::
  "json \<Rightarrow> int \<Rightarrow> json list \<Rightarrow> (string \<times> json) list \<Rightarrow> json list \<Rightarrow> bool" where
  "config_at response integration_id before c after \<longleftrightarrow>
     config_list response = Some (before @ JDict c # after)
     \<and> list_all (other_config integration_id) before
     \<and> eq_int (dict_get c ''integrationId'') integration_id"

definition item_at ::
  "(string \<times> json) list \<Rightarrow> string \<Rightarrow> json list \<Rightarrow> (string \<times> json) list \<Rightarrow> json list \<Rightarrow> bool" where
  "item_at c repository_name before item after \<longleftrightarrow>
     dict_get c ''items'' = JList (before @ JDict item # after)
     \<and> list_all (other_item repository_name) before
     \<and> eq_str (dict_get item ''name'') repository_name"

text \<open>
  How a run that returns can end, seen from cycle \<open>n\<close>: at the loop condition with
  the \<^verbatim>\<open>TimeoutError\<close> of line 123, or inside the cycle with an exception or the item.
\<close>

definition ends_at ::
  "'e env \<Rightarrow> int \<Rightarrow> int \<Rightarrow> string \<Rightarrow> int \<Rightarrow> int \<Rightarrow> nat
     \<Rightarrow> ('e py_error + json) \<times> world \<Rightarrow> bool" where
  "ends_at env workspace_id integration_id repository_name timeout_ms interval_ms n y \<longleftrightarrow>
     (if before_deadline env timeout_ms n then
        (case verdict env workspace_id integration_id repository_name n of
           Inl err \<Rightarrow> y = (Inl err, stopped_in_cycle workspace_id integration_id interval_ms n)
         | Inr (Some item) \<Rightarrow>
             y = (Inr item, stopped_in_cycle workspace_id integration_id interval_ms n)
         | Inr None \<Rightarrow> False)
      else y = (Inl (TimeoutError (timeout_msg repository_name timeout_ms)),
                timed_out_at workspace_id integration_id interval_ms n))"

section \<open>Concrete runs\<close>

text \<open>
  The scenarios of the specification: integration 456 with the repository org/repo,
  polled in workspace 1. With \<open>sleep_clock\<close> time passes only in the sleeps, 100 ms in
  each; with \<open>slow_clock\<close> the first fetch and sleep take a full second.
\<close>

definition item_discovered :: "(string \<times> json) list" where
  "item_discovered = [(''name'', JStr ''org/repo''), (''status'', JStr ''DISCOVERED'')]"

definition item_paused :: "(string \<times> json) list" where
  "item_paused = [(''name'', JStr ''org/repo''), (''status'', JStr ''PAUSED'')]"

definition item_other :: "(string \<times> json) list" where
  "item_other = [(''name'', JStr ''other/repo''), (''status'', JStr ''PAUSED'')]"

definition item_no_status :: "(string \<times> json) list" where
  "item_no_status = [(''name'', JStr ''org/repo'')]"

definition config_of :: "json list \<Rightarrow> (string \<times> json) list" where
  "config_of items = [(''integrationId'', JInt 456), (''items'', JList items)]"

definition snapshot_of :: "json list \<Rightarrow> json" where
  "snapshot_of items = JDict [(''configuration'', JList [JDict (config_of items)])]"

definition sleep_clock :: "nat \<Rightarrow> rat" where
  "sleep_clock k = of_nat (k - 1) / 10"

definition slow_clock :: "nat \<Rightarrow> rat" where
  "slow_clock k = of_nat (k - 1)"

definition api_always :: "json \<Rightarrow> nat \<Rightarrow> int \<Rightarrow> int \<Rightarrow> string + json" where
  "api_always response k w i = Inr response"

definition api_paused_from :: "nat \<Rightarrow> nat \<Rightarrow> int \<Rightarrow> int \<Rightarrow> string + json" where
  "api_paused_from m k w i =
     Inr (snapshot_of [JDict (if k < m then item_discovered else item_paused)])"

definition api_fails_from :: "nat \<Rightarrow> nat \<Rightarrow> int \<Rightarrow> int \<Rightarrow> string + json" where
  "api_fails_from m k w i =
     (if k < m then Inr (snapshot_of [JDict item_discovered]) else Inl ''connection reset'')"

text \<open>Scenario A: DISCOVERED on the first two fetches, PAUSED on the third.\<close>

definition env_scenario_a :: "string env" where
  "env_scenario_a = \<lparr>clock = sleep_clock, api = api_paused_from 2\<rparr>"

text \<open>Two items of the name, the first DISCOVERED and the second PAUSED, on every fetch.\<close>

definition env_duplicate :: "string env" where
  "env_duplicate =
     \<lparr>clock = sleep_clock,
      api = api_always (snapshot_of [JDict item_discovered, JDict item_paused])\<rparr>"

lemmas shape_defs = snapshot_of_def config_of_def item_paused_def item_discovered_def
  item_other_def item_no_status_def config_at_def item_at_def config_list_def dict_get_def
  other_config_def other_item_def

lemmas eval_defs = check_response_def check_config_def check_items_def check_status_def
  verdict_def pending_def before_deadline_def sleep_clock_def slow_clock_def
  api_always_def api_paused_from_def api_fails_from_def

text \<open>Scenario B: only another repository is listed.\<close>

definition env_scenario_b :: "string env" where
  "env_scenario_b = \<lparr>clock = sleep_clock, api = api_always (snapshot_of [JDict item_other])\<rparr>"

text \<open>The second fetch fails in the transport.\<close>

definition env_transport :: "string env" where
  "env_transport = \<lparr>clock = sleep_clock, api = api_fails_from 1\<rparr>"

text \<open>The item of the repository carries no status.\<close>

definition env_no_status :: "string env" where
  "env_no_status = \<lparr>clock = sleep_clock, api = api_always (snapshot_of [JDict item_no_status])\<rparr>"

text \<open>Scenario C: the repository stays DISCOVERED.\<close>

definition env_scenario_c :: "string env" where
  "env_scenario_c = \<lparr>clock = sleep_clock, api = api_always (snapshot_of [JDict item_discovered])\<rparr>"

text \<open>The repository stays DISCOVERED and the first fetch is slow.\<close>

definition env_slow_fetch :: "string env" where
  "env_slow_fetch = \<lparr>clock = slow_clock, api = api_always (snapshot_of [JDict item_discovered])\<rparr>"

text \<open>DISCOVERED on the first fetch and PAUSED from the second on, with quick fetches.\<close>

definition env_fast :: "string env" where
  "env_fast = \<lparr>clock = sleep_clock, api = api_paused_from 1\<rparr>"

text \<open>The same responses, with a slow first fetch.\<close>

definition env_slow :: "string env" where
  "env_slow = \<lparr>clock = slow_clock, api = api_paused_from 1\<rparr>"

text \<open>The first item of the name is PAUSED; a DISCOVERED item of the same name follows.\<close>

definition env_twin_behind :: "string env" where
  "env_twin_behind =
     \<lparr>clock = sleep_clock,
      api = api_always (snapshot_of [JDict item_paused, JDict item_discovered])\<rparr>"

text \<open>The value of configuration is None.\<close>

definition env_null_config :: "string env" where
  "env_null_config =
     \<lparr>clock = sleep_clock, api = api_always (JDict [(''configuration'', JNull)])\<rparr>"

text \<open>The items list holds None.\<close>

definition env_null_item :: "string env" where
  "env_null_item = \<lparr>clock = sleep_clock, api = api_always (snapshot_of [JNull])\<rparr>"

section \<open>Evaluating a response of known shape\<close>

lemma find_config_skip:
  "list_all (other_config i) before \<Longrightarrow> find_config (before @ xs) i = find_config xs i"
  by (induction before) (auto simp: other_config_def split: json.splits)

lemma find_item_skip:
  "list_all (other_item s) before \<Longrightarrow> find_item (before @ xs) s = find_item xs s"
  by (induction before) (auto simp: other_item_def split: json.splits)

lemma eq_int_nonempty: "eq_int (dict_get c k) i \<Longrightarrow> c \<noteq> []"
  by (auto simp: dict_get_def)

lemma eq_str_nonempty: "eq_str (dict_get c k) s \<Longrightarrow> c \<noteq> []"
  by (auto simp: dict_get_def)

lemma config_list_iter:
  "config_list response = Some cs \<Longrightarrow>
   check_response response i s =
     (case find_config cs i of Inl e \<Rightarrow> Inl e | Inr config \<Rightarrow> check_config config s)"
  by (auto simp: config_list_def check_response_def split: json.splits option.splits)

lemma check_response_config_at:
  assumes "config_at response i before c after"
  shows "check_response response i s = check_config (Some c) s"
  using assms
  by (simp add: config_at_def config_list_iter find_config_skip)

lemma check_config_item_at:
  assumes "eq_int (dict_get c ''integrationId'') i" "item_at c s before item after"
  shows "check_config (Some c) s = check_status item"
  using assms eq_int_nonempty[of c "''integrationId''" i] eq_str_nonempty[of item "''name''" s]
  by (simp add: item_at_def check_config_def check_items_def find_item_skip)

lemma check_response_item_at:
  assumes "config_at response i cb c ca" "item_at c s ib item ia"
  shows "check_response response i s = check_status item"
proof -
  have "eq_int (dict_get c ''integrationId'') i"
    using assms(1) by (simp add: config_at_def)
  then show ?thesis
    by (simp add: check_response_config_at[OF assms(1)] check_config_item_at[OF _ assms(2)])
qed

lemma cycles_Suc:
  "cycles w i iv (Suc n) = cycles w i iv n @ [Fetch w i, Sleep (of_int iv / 1000)]"
proof -
  have "concat (replicate (Suc n) xs) = concat (replicate n xs) @ xs" for xs :: "event list"
    by (induction n) simp_all
  then show ?thesis
    by (simp only: cycles_def)
qed

lemma poll_at_cycle:
  "poll env w i s t iv (clock env 0) (at_cycle w i iv n) =
     (if before_deadline env t n then
        (case verdict env w i s n of
           Inl err \<Rightarrow> Some (Inl err, stopped_in_cycle w i iv n)
         | Inr (Some item) \<Rightarrow> Some (Inr item, stopped_in_cycle w i iv n)
         | Inr None \<Rightarrow> poll env w i s t iv (clock env 0) (at_cycle w i iv (Suc n)))
      else Some (Inl (TimeoutError (timeout_msg s t)), timed_out_at w i iv n))"
  apply (subst poll.simps)
  apply (simp add: time_time_def at_cycle_def before_deadline_def timed_out_at_def
      get_all_agent_configuration_def verdict_def stopped_in_cycle_def asyncio_sleep_def
      cycles_Suc
      split: sum.splits option.splits)
  done

lemma wait_is_poll:
  "wait_for_repo_status_paused env w i s t iv = poll env w i s t iv (clock env 0) (at_cycle w i iv 0)"
  by (simp add: wait_for_repo_status_paused_def time_time_def world0_def at_cycle_def cycles_def)

lemma poll_skip:
  assumes "\<forall>k<n. before_deadline env t k \<and> pending env w i s k"
  shows "poll env w i s t iv (clock env 0) (at_cycle w i iv 0)
       = poll env w i s t iv (clock env 0) (at_cycle w i iv n)"
  using assms
proof (induction n)
  case 0
  show ?case by simp
next
  case (Suc n)
  then have "before_deadline env t n" "verdict env w i s n = Inr None"
    by (simp_all add: pending_def)
  then have "poll env w i s t iv (clock env 0) (at_cycle w i iv n)
           = poll env w i s t iv (clock env 0) (at_cycle w i iv (Suc n))"
    by (subst poll_at_cycle) simp
  with Suc show ?case by simp
qed

section \<open>Runs, cycle by cycle\<close>

lemma fetch_count_cycles: "fetch_count (cycles w i iv n) = n"
  by (induction n) (simp_all add: cycles_def fetch_count_def)

lemma sleep_count_cycles: "sleep_count (cycles w i iv n) = n"
  by (induction n) (simp_all add: cycles_def sleep_count_def)

lemma stopped_counts:
  "fetch_count (events (stopped_in_cycle w i iv n)) = Suc n"
  "sleep_count (events (stopped_in_cycle w i iv n)) = n"
  "last (events (stopped_in_cycle w i iv n)) = Fetch w i"
  using fetch_count_cycles[of w i iv n] sleep_count_cycles[of w i iv n]
  by (simp_all add: stopped_in_cycle_def fetch_count_def sleep_count_def)

lemma timed_out_counts:
  "fetch_count (events (timed_out_at w i iv n)) = n"
  "sleep_count (events (timed_out_at w i iv n)) = n"
  by (simp_all add: timed_out_at_def fetch_count_cycles sleep_count_cycles)

lemma run_in_cycle:
  assumes "\<forall>k<n. before_deadline env t k \<and> pending env w i s k"
    and "before_deadline env t n"
  shows "wait_for_repo_status_paused env w i s t iv =
     (case verdict env w i s n of
        Inl err \<Rightarrow> Some (Inl err, stopped_in_cycle w i iv n)
      | Inr (Some item) \<Rightarrow> Some (Inr item, stopped_in_cycle w i iv n)
      | Inr None \<Rightarrow> poll env w i s t iv (clock env 0) (at_cycle w i iv (Suc n)))"
  using assms(2) by (simp add: wait_is_poll poll_skip[OF assms(1)] poll_at_cycle[of env w i s t iv n])

lemma run_times_out:
  assumes "\<forall>k<n. before_deadline env t k \<and> pending env w i s k"
    and "\<not> before_deadline env t n"
  shows "wait_for_repo_status_paused env w i s t iv =
     Some (Inl (TimeoutError (timeout_msg s t)), timed_out_at w i iv n)"
  using assms(2) by (simp add: wait_is_poll poll_skip[OF assms(1)] poll_at_cycle[of env w i s t iv n])

lemma run_ends:
  assumes "\<forall>k<n. before_deadline env t k \<and> pending env w i s k"
    and "ends_at env w i s t iv n y"
  shows "wait_for_repo_status_paused env w i s t iv = Some y"
proof (cases "before_deadline env t n")
  case True
  show ?thesis
  proof (cases "verdict env w i s n")
    case (Inl err)
    with assms(2) True show ?thesis
      by (simp add: run_in_cycle[OF assms(1) True] ends_at_def)
  next
    case (Inr r)
    with assms(2) True show ?thesis
      by (cases r) (simp_all add: run_in_cycle[OF assms(1) True] ends_at_def)
  qed
next
  case False
  with assms(2) show ?thesis
    by (simp add: run_times_out[OF assms(1) False] ends_at_def)
qed

lemma body_at_cycle:
  "(case time_time env (at_cycle w i iv n) of (now, w1) \<Rightarrow>
        if (now - clock env 0) * 1000 < of_int t then
          (case get_all_agent_configuration env w i w1 of
             (Inl e, w2) \<Rightarrow> Some (Inl (Raised e), w2)
           | (Inr response, w2) \<Rightarrow>
               (case check_response response i s of
                  Inl err \<Rightarrow> Some (Inl err, w2)
                | Inr (Some matching_item) \<Rightarrow> Some (Inr matching_item, w2)
                | Inr None \<Rightarrow> F (asyncio_sleep (of_int iv / 1000) w2)))
        else Some (Inl (TimeoutError (timeout_msg s t)), w1))
   = (if before_deadline env t n then
        (case verdict env w i s n of
           Inl err \<Rightarrow> Some (Inl err, stopped_in_cycle w i iv n)
         | Inr (Some item) \<Rightarrow> Some (Inr item, stopped_in_cycle w i iv n)
         | Inr None \<Rightarrow> F (at_cycle w i iv (Suc n)))
      else Some (Inl (TimeoutError (timeout_msg s t)), timed_out_at w i iv n))"
  by (simp add: time_time_def at_cycle_def before_deadline_def timed_out_at_def
      get_all_agent_configuration_def verdict_def stopped_in_cycle_def asyncio_sleep_def
      cycles_Suc
      split: sum.splits option.splits)

lemma poll_returns:
  assumes "poll env w i s t iv st wd = Some y"
  shows "st = clock env 0 \<longrightarrow> (\<forall>m. wd = at_cycle w i iv m \<longrightarrow>
           (\<exists>n\<ge>m. (\<forall>k. m \<le> k \<and> k < n \<longrightarrow> before_deadline env t k \<and> pending env w i s k)
                 \<and> ends_at env w i s t iv n y))"
proof -
  define P where "P = (\<lambda>(env :: 'a env) w i s t iv st wd y.
      st = clock env 0 \<longrightarrow> (\<forall>m. wd = at_cycle w i iv m \<longrightarrow>
           (\<exists>n\<ge>m. (\<forall>k. m \<le> k \<and> k < n \<longrightarrow> before_deadline env t k \<and> pending env w i s k)
                 \<and> ends_at env w i s t iv n y)))"
  have "P env w i s t iv st wd y"
  proof (rule poll.raw_induct[where P = P, OF _ assms])
    fix poll' and env :: "'a env" and w i s t iv st wd y
    assume IH: "\<And>env w i s t iv st wd y. poll' env w i s t iv st wd = Some y \<Longrightarrow> P env w i s t iv st wd y"
    assume body: "(case time_time env wd of (now, w1) \<Rightarrow>
        if (now - st) * 1000 < of_int t then
          (case get_all_agent_configuration env w i w1 of
             (Inl e, w2) \<Rightarrow> Some (Inl (Raised e), w2)
           | (Inr response, w2) \<Rightarrow>
               (case check_response response i s of
                  Inl err \<Rightarrow> Some (Inl err, w2)
                | Inr None \<Rightarrow> poll' env w i s t iv st (asyncio_sleep (of_int iv / 1000) w2)
                | Inr (Some matching_item) \<Rightarrow> Some (Inr matching_item, w2)))
        else Some (Inl (TimeoutError (timeout_msg s t)), w1)) = Some y"
    show "P env w i s t iv st wd y"
      unfolding P_def
    proof (intro impI allI)
      fix m
      assume st: "st = clock env 0" and wd: "wd = at_cycle w i iv m"
      have step: "(if before_deadline env t m then
          (case verdict env w i s m of
             Inl err \<Rightarrow> Some (Inl err, stopped_in_cycle w i iv m)
           | Inr (Some item) \<Rightarrow> Some (Inr item, stopped_in_cycle w i iv m)
           | Inr None \<Rightarrow> poll' env w i s t iv (clock env 0) (at_cycle w i iv (Suc m)))
        else Some (Inl (TimeoutError (timeout_msg s t)), timed_out_at w i iv m)) = Some y"
        using body unfolding st wd
        by (simp only: body_at_cycle[where F = "poll' env w i s t iv (clock env 0)"])
      show "\<exists>n\<ge>m. (\<forall>k. m \<le> k \<and> k < n \<longrightarrow> before_deadline env t k \<and> pending env w i s k)
                   \<and> ends_at env w i s t iv n y"
      proof (cases "before_deadline env t m \<and> verdict env w i s m = Inr None")
        case False
        have "ends_at env w i s t iv m y"
        proof (cases "before_deadline env t m")
          case bd: True
          with False have nv: "verdict env w i s m \<noteq> Inr None" by simp
          show ?thesis
          proof (cases "verdict env w i s m")
            case (Inl err)
            with step bd show ?thesis by (simp add: ends_at_def)
          next
            case (Inr r)
            with nv obtain item where "r = Some item" by (cases r) simp_all
            with Inr step bd show ?thesis by (simp add: ends_at_def)
          qed
        next
          case nbd: False
          with step show ?thesis by (simp add: ends_at_def)
        qed
        then have "m \<le> m \<and> (\<forall>k. m \<le> k \<and> k < m \<longrightarrow> before_deadline env t k \<and> pending env w i s k)
                   \<and> ends_at env w i s t iv m y"
          by auto
        then show ?thesis by (rule exI)
      next
        case True
        with step have "poll' env w i s t iv st (at_cycle w i iv (Suc m)) = Some y"
          by (simp add: st)
        from IH[OF this] have "\<exists>n\<ge>Suc m. (\<forall>k. Suc m \<le> k \<and> k < n \<longrightarrow>
             before_deadline env t k \<and> pending env w i s k) \<and> ends_at env w i s t iv n y"
          unfolding P_def using st by simp
        then obtain n where n: "Suc m \<le> n"
          "\<forall>k. Suc m \<le> k \<and> k < n \<longrightarrow> before_deadline env t k \<and> pending env w i s k"
          "ends_at env w i s t iv n y"
          by (elim exE conjE)
        have "before_deadline env t k \<and> pending env w i s k" if k: "m \<le> k \<and> k < n" for k
        proof (cases "k = m")
          case km: True
          with True show ?thesis by (simp add: pending_def)
        next
          case False
          with k have "Suc m \<le> k \<and> k < n" by simp
          with n(2) show ?thesis by simp
        qed
        then have "m \<le> n \<and> (\<forall>k. m \<le> k \<and> k < n \<longrightarrow> before_deadline env t k \<and> pending env w i s k)
                   \<and> ends_at env w i s t iv n y"
          using n(1,3) by simp
        then show ?thesis by (rule exI)
      qed
    qed
  qed
  then show ?thesis unfolding P_def .
qed

lemma wait_returns_iff:
  "wait_for_repo_status_paused env w i s t iv = Some y \<longleftrightarrow>
     (\<exists>n. (\<forall>k<n. before_deadline env t k \<and> pending env w i s k) \<and> ends_at env w i s t iv n y)"
proof
  assume "wait_for_repo_status_paused env w i s t iv = Some y"
  then have "poll env w i s t iv (clock env 0) (at_cycle w i iv 0) = Some y"
    by (simp add: wait_is_poll)
  from poll_returns[OF this, rule_format, OF refl refl]
  obtain n where "\<forall>k. 0 \<le> k \<and> k < n \<longrightarrow> before_deadline env t k \<and> pending env w i s k"
    and "ends_at env w i s t iv n y"
    by (elim exE conjE)
  then have "(\<forall>k<n. before_deadline env t k \<and> pending env w i s k) \<and> ends_at env w i s t iv n y"
    by simp
  then show "\<exists>n. (\<forall>k<n. before_deadline env t k \<and> pending env w i s k)
      \<and> ends_at env w i s t iv n y"
    by (rule exI)
next
  assume "\<exists>n. (\<forall>k<n. before_deadline env t k \<and> pending env w i s k) \<and> ends_at env w i s t iv n y"
  then obtain n where "\<forall>k<n. before_deadline env t k \<and> pending env w i s k"
    and "ends_at env w i s t iv n y"
    by (elim exE conjE)
  then show "wait_for_repo_status_paused env w i s t iv = Some y"
    by (rule run_ends)
qed

section \<open>Responses that end a run with an exception\<close>

lemma find_config_none:
  "list_all (other_config i) cs \<Longrightarrow> find_config cs i = Inr None"
  using find_config_skip[of i cs "[]"] by simp

lemma find_item_none:
  "list_all (other_item s) items \<Longrightarrow> find_item items s = Inr None"
  using find_item_skip[of s items "[]"] by simp

lemma check_response_no_config:
  assumes "config_list response = Some cs" "list_all (other_config i) cs"
  shows "check_response response i s = Inl (ValueError invalid_config_msg)"
  using assms by (simp add: config_list_iter find_config_none check_config_def)

lemma check_response_no_items:
  assumes "config_at response i cb c ca" "\<not> isinstance_list (dict_get c ''items'')"
  shows "check_response response i s = Inl (ValueError invalid_config_msg)"
  using assms(2) by (simp add: check_response_config_at[OF assms(1)] check_config_def)

lemma check_response_no_item:
  assumes "config_at response i cb c ca" "dict_get c ''items'' = JList items"
    "list_all (other_item s) items"
  shows "check_response response i s = Inl (ValueError (not_found_msg s))"
proof -
  have "c \<noteq> []"
    using assms(1) eq_int_nonempty[of c "''integrationId''" i] by (simp add: config_at_def)
  then show ?thesis
    using assms(2,3)
    by (simp add: check_response_config_at[OF assms(1)] check_config_def check_items_def
        find_item_none)
qed

lemma no_config_not_config_at:
  assumes "config_list response = Some cs" "list_all (other_config i) cs"
  shows "\<not> config_at response i cb c ca"
proof
  assume "config_at response i cb c ca"
  then have "cs = cb @ JDict c # ca" and hit: "eq_int (dict_get c ''integrationId'') i"
    using assms(1) by (simp_all add: config_at_def)
  with assms(2) have "other_config i (JDict c)" by simp
  with hit show False by (simp add: other_config_def)
qed

section \<open>Elapsed time\<close>

lemma elapsed_at_least:
  assumes "clock env 0 \<le> clock env 1"
    and "\<forall>k. clock env (Suc k) + d \<le> clock env (Suc (Suc k))"
  shows "clock env 0 + of_nat k * d \<le> clock env (Suc k)"
proof (induction k)
  case 0
  show ?case using assms(1) by simp
next
  case (Suc k)
  have "clock env (Suc k) + d \<le> clock env (Suc (Suc k))"
    using assms(2) by simp
  with Suc show ?case by (simp add: algebra_simps)
qed

lemma elapsed_exactly:
  assumes "clock env 1 = clock env 0"
    and "\<forall>k. clock env (Suc (Suc k)) = clock env (Suc k) + d"
  shows "clock env (Suc k) = clock env 0 + of_nat k * d"
proof (induction k)
  case 0
  show ?case using assms(1) by simp
next
  case (Suc k)
  have "clock env (Suc (Suc k)) = clock env (Suc k) + d"
    using assms(2) by simp
  with Suc show ?case by (simp add: algebra_simps)
qed

lemma before_deadline_bound:
  assumes "clock env 0 \<le> clock env 1"
    and "\<forall>k. clock env (Suc k) + of_int iv / 1000 \<le> clock env (Suc (Suc k))"
    and "before_deadline env t k"
  shows "(of_nat k :: rat) * of_int iv < of_int t"
proof -
  have "of_nat k * (of_int iv / 1000) \<le> clock env (Suc k) - clock env 0"
    using elapsed_at_least[OF assms(1,2), of k] by simp
  then have "of_nat k * of_int iv \<le> (clock env (Suc k) - clock env 0) * 1000"
    by (simp add: field_simps)
  with assms(3) show ?thesis
    unfolding before_deadline_def by linarith
qed

section \<open>What a run depends on\<close>

text \<open>A run is determined by the clock readings and by the verdict of each cycle.\<close>

lemma wait_cong:
  assumes "clock env' = clock env"
    and "\<forall>k. verdict env' w i s k = verdict env w i s k"
  shows "wait_for_repo_status_paused env' w i s t iv = wait_for_repo_status_paused env w i s t iv"
proof -
  have bd: "before_deadline env' t k = before_deadline env t k" for k
    using assms(1) by (simp add: before_deadline_def)
  have pd: "pending env' w i s k = pending env w i s k" for k
    using assms(2) by (simp add: pending_def)
  have "ends_at env' w i s t iv n y = ends_at env w i s t iv n y" for n y
    using assms(2) by (simp add: ends_at_def bd)
  then have "wait_for_repo_status_paused env' w i s t iv = Some y
          \<longleftrightarrow> wait_for_repo_status_paused env w i s t iv = Some y" for y
    by (simp add: wait_returns_iff bd pd)
  then show ?thesis
    by (metis option.exhaust)
qed

lemma ends_at_inside:
  assumes "ends_at env w i s t iv n (r, wd)"
    and "r \<noteq> Inl (TimeoutError (timeout_msg s t))"
  shows "before_deadline env t n \<and> verdict env w i s n \<noteq> Inr None
       \<and> (case verdict env w i s n of Inl err \<Rightarrow> r = Inl err
           | Inr (Some item) \<Rightarrow> r = Inr item | Inr None \<Rightarrow> False)"
proof (cases "before_deadline env t n")
  case False
  with assms show ?thesis by (simp add: ends_at_def)
next
  case True
  with assms(1) show ?thesis
    by (cases "verdict env w i s n") (auto simp: ends_at_def split: option.splits)
qed

section \<open>What a pending cycle is\<close>

text \<open>
  The search functions return exactly the first entry that fits, and a response is
  evaluated without an exception only when it has the shape of \<open>config_at\<close> and
  \<open>item_at\<close>. So a cycle is pending if and only if its fetch returns a response in
  which the first item of the name, in the first config of the integration, has a
  status that is not PAUSED.
\<close>

lemma find_config_found:
  "find_config cs i = (Inr (Some c) :: 'e py_error + (string \<times> json) list option) \<Longrightarrow>
   \<exists>before after. cs = before @ JDict c # after \<and> list_all (other_config i) before
      \<and> eq_int (dict_get c ''integrationId'') i"
proof (induction cs i rule: find_config.induct)
  case (1 i)
  then show ?case by simp
next
  case (2 d cs i)
  show ?case
  proof (cases "eq_int (dict_get d ''integrationId'') i")
    case True
    with 2(2) have "d = c" by simp
    with True have "JDict d # cs = [] @ JDict c # cs \<and> list_all (other_config i) []
      \<and> eq_int (dict_get c ''integrationId'') i" by simp
    then show ?thesis by blast
  next
    case False
    with 2 obtain before after where ba: "cs = before @ JDict c # after"
      "list_all (other_config i) before" "eq_int (dict_get c ''integrationId'') i"
      by auto
    with False have "JDict d # cs = (JDict d # before) @ JDict c # after
      \<and> list_all (other_config i) (JDict d # before)
      \<and> eq_int (dict_get c ''integrationId'') i"
      by (simp add: other_config_def)
    then show ?thesis by blast
  qed
qed simp_all

lemma find_item_found:
  "find_item items s = (Inr (Some item) :: 'e py_error + (string \<times> json) list option) \<Longrightarrow>
   \<exists>before after. items = before @ JDict item # after \<and> list_all (other_item s) before
      \<and> eq_str (dict_get item ''name'') s"
proof (induction items s rule: find_item.induct)
  case (1 s)
  then show ?case by simp
next
  case (2 d items s)
  show ?case
  proof (cases "eq_str (dict_get d ''name'') s")
    case True
    with 2(2) have "d = item" by simp
    with True have "JDict d # items = [] @ JDict item # items \<and> list_all (other_item s) []
      \<and> eq_str (dict_get item ''name'') s" by simp
    then show ?thesis by blast
  next
    case False
    with 2 obtain before after where ba: "items = before @ JDict item # after"
      "list_all (other_item s) before" "eq_str (dict_get item ''name'') s"
      by auto
    with False have "JDict d # items = (JDict d # before) @ JDict item # after
      \<and> list_all (other_item s) (JDict d # before)
      \<and> eq_str (dict_get item ''name'') s"
      by (simp add: other_item_def)
    then show ?thesis by blast
  qed
qed simp_all

lemma find_config_strings:
  "find_config (map f xs) i \<noteq> (Inr (Some c) :: 'e py_error + (string \<times> json) list option)"
  if "\<And>x. \<exists>t. f x = JStr t"
proof (cases xs)
  case Nil
  then show ?thesis by simp
next
  case (Cons x xs')
  from that[of x] obtain t where "f x = JStr t" ..
  with Cons show ?thesis by simp
qed

lemma check_response_found:
  assumes "check_response response i s = (Inr v :: 'e py_error + json option)"
  shows "\<exists>cb c ca before item after.
           config_at response i cb c ca \<and> item_at c s before item after
         \<and> check_status item = (Inr v :: 'e py_error + json option)"
proof -
  from assms obtain r where r: "response = JDict r"
    by (cases response) (simp_all add: check_response_def)
  define cv where "cv = (case map_of r ''configuration'' of None \<Rightarrow> JList [] | Some x \<Rightarrow> x)"
  from assms r obtain cl where cl: "py_iter cv = (Inr cl :: 'e py_error + json list)"
    by (cases "py_iter cv :: 'e py_error + json list") (simp_all add: check_response_def cv_def)
  with assms r have fc: "(case find_config cl i of Inl e \<Rightarrow> Inl e
      | Inr config \<Rightarrow> check_config config s) = (Inr v :: 'e py_error + json option)"
    by (simp add: check_response_def cv_def)
  then obtain config where config:
    "find_config cl i = (Inr config :: 'e py_error + (string \<times> json) list option)"
    "check_config config s = (Inr v :: 'e py_error + json option)"
    by (cases "find_config cl i :: 'e py_error + (string \<times> json) list option") simp_all
  from config(2) obtain c where c: "config = Some c" "c \<noteq> []"
    "isinstance_list (dict_get c ''items'')"
    by (cases config) (auto simp: check_config_def split: if_splits)
  have "cv = JList cl"
  proof (cases cv)
    case (JList xs)
    with cl show ?thesis by simp
  next
    case (JDict d)
    with cl have "cl = map (\<lambda>kv. JStr (fst kv)) d" by simp
    moreover have "find_config (map (\<lambda>kv. JStr (fst kv)) d) i
        \<noteq> (Inr (Some c) :: 'e py_error + (string \<times> json) list option)"
      by (rule find_config_strings) simp
    ultimately show ?thesis using config(1) c(1) by simp
  next
    case (JStr t)
    with cl have "cl = map (\<lambda>c. JStr [c]) t" by simp
    moreover have "find_config (map (\<lambda>c. JStr [c]) t) i
        \<noteq> (Inr (Some c) :: 'e py_error + (string \<times> json) list option)"
      by (rule find_config_strings) simp
    ultimately show ?thesis using config(1) c(1) by simp
  qed (use cl in simp_all)
  then have "config_list response = Some cl"
    by (auto simp: config_list_def r cv_def split: option.splits)
  moreover from find_config_found config(1) c(1) obtain cb ca where
    "cl = cb @ JDict c # ca" "list_all (other_config i) cb"
    "eq_int (dict_get c ''integrationId'') i"
    by blast
  ultimately have at: "config_at response i cb c ca"
    by (simp add: config_at_def)
  from c(3) obtain items where items: "dict_get c ''items'' = JList items"
    by (cases "dict_get c ''items''") simp_all
  with config(2) c have ci: "check_items items s = (Inr v :: 'e py_error + json option)"
    by (simp add: check_config_def)
  then obtain item where item:
    "find_item items s = (Inr (Some item) :: 'e py_error + (string \<times> json) list option)"
    "check_status item = (Inr v :: 'e py_error + json option)"
    by (auto simp: check_items_def split: sum.splits option.splits if_splits)
  from find_item_found[OF item(1)] obtain before after where
    "items = before @ JDict item # after" "list_all (other_item s) before"
    "eq_str (dict_get item ''name'') s"
    by blast
  with items have "item_at c s before item after"
    by (simp add: item_at_def)
  with at item(2) show ?thesis by blast
qed

lemma pending_iff:
  "pending env w i s k \<longleftrightarrow>
     (\<exists>response cb c ca before item after status.
        api env k w i = Inr response
      \<and> config_at response i cb c ca \<and> item_at c s before item after
      \<and> map_of item ''status'' = Some status \<and> \<not> eq_str status ''PAUSED'')"
proof
  assume "pending env w i s k"
  then obtain response where response: "api env k w i = Inr response"
    "check_response response i s = (Inr None :: 'a py_error + json option)"
    by (auto simp: pending_def verdict_def split: sum.splits)
  from check_response_found[OF response(2)] obtain cb c ca before item after where
    found: "config_at response i cb c ca" "item_at c s before item after"
    "check_status item = (Inr None :: 'a py_error + json option)"
    by blast
  from found(3) obtain status where "map_of item ''status'' = Some status"
    "\<not> eq_str status ''PAUSED''"
    by (auto simp: check_status_def split: option.splits if_splits)
  with response(1) found(1,2) show "\<exists>response cb c ca before item after status.
        api env k w i = Inr response
      \<and> config_at response i cb c ca \<and> item_at c s before item after
      \<and> map_of item ''status'' = Some status \<and> \<not> eq_str status ''PAUSED''"
    by blast
next
  assume "\<exists>response cb c ca before item after status.
        api env k w i = Inr response
      \<and> config_at response i cb c ca \<and> item_at c s before item after
      \<and> map_of item ''status'' = Some status \<and> \<not> eq_str status ''PAUSED''"
  then obtain response cb c ca before item after status where
    h: "api env k w i = Inr response" "config_at response i cb c ca"
    "item_at c s before item after" "map_of item ''status'' = Some status"
    "\<not> eq_str status ''PAUSED''"
    by blast
  have "check_response response i s = (check_status item :: 'a py_error + json option)"
    by (rule check_response_item_at[OF h(2,3)])
  with h(1,4,5) show "pending env w i s k"
    by (simp add: pending_def verdict_def check_status_def)
qed

section \<open>The exceptions of a run\<close>

text \<open>
  The evaluation of a response raises one of five exceptions, none of them a
  \<^verbatim>\<open>TimeoutError\<close>: that one comes from line 123 only, with the message of line 123.
\<close>

lemma find_config_raises:
  "find_config cs i = Inl e \<Longrightarrow> e = AttributeError"
  by (induction cs i rule: find_config.induct) (auto split: if_splits)

lemma find_item_raises:
  "find_item items s = Inl e \<Longrightarrow> e = AttributeError"
  by (induction items s rule: find_item.induct) (auto split: if_splits)

lemma py_iter_raises: "py_iter v = Inl e \<Longrightarrow> e = TypeError"
  by (cases v) auto

lemma check_status_raises: "check_status item = Inl e \<Longrightarrow> e = KeyError ''status''"
  by (auto simp: check_status_def split: option.splits if_splits)

lemma check_items_raises:
  "check_items items s = Inl e \<Longrightarrow>
   e = AttributeError \<or> e = ValueError (not_found_msg s) \<or> e = KeyError ''status''"
  by (auto simp: check_items_def split: sum.splits option.splits if_splits
      dest: find_item_raises check_status_raises)

lemma check_config_raises:
  "check_config config s = Inl e \<Longrightarrow>
   e = AttributeError \<or> e = TypeError \<or> e = ValueError invalid_config_msg
   \<or> e = ValueError (not_found_msg s) \<or> e = KeyError ''status''"
  by (auto simp: check_config_def split: sum.splits option.splits if_splits
      dest: py_iter_raises check_items_raises)

lemma check_response_raises:
  "check_response response i s = Inl e \<Longrightarrow>
   e = AttributeError \<or> e = TypeError \<or> e = ValueError invalid_config_msg
   \<or> e = ValueError (not_found_msg s) \<or> e = KeyError ''status''"
  by (auto simp: check_response_def split: json.splits sum.splits
      dest: py_iter_raises find_config_raises check_config_raises)

lemma timeout_error_message:
  assumes "wait_for_repo_status_paused env w i s t iv = Some (Inl (TimeoutError m), wd)"
  shows "m = timeout_msg s t"
proof -
  from assms obtain n where n: "ends_at env w i s t iv n (Inl (TimeoutError m), wd)"
    unfolding wait_returns_iff by (elim exE conjE)
  show ?thesis
  proof (cases "before_deadline env t n")
    case False
    with n show ?thesis by (simp add: ends_at_def)
  next
    case True
    with n have v: "verdict env w i s n = Inl (TimeoutError m)"
      by (cases "verdict env w i s n") (auto simp: ends_at_def split: option.splits)
    show ?thesis
    proof (cases "api env n w i")
      case (Inl e)
      with v show ?thesis by (simp add: verdict_def)
    next
      case (Inr response)
      with v have "check_response response i s = (Inl (TimeoutError m) :: 'a py_error + json option)"
        by (simp add: verdict_def)
      from check_response_raises[OF this] show ?thesis by simp
    qed
  qed
qed

lemma timeout_msg_parts:
  "timeout_msg s t = stopwatch @ '' Timeout: Repo '' @ [CHR 0x27] @ s @ [CHR 0x27]
       @ '' status did not become '' @ [CHR 0x27] @ ''PAUSED'' @ [CHR 0x27]
       @ '' within '' @ str_int (t div 1000) @ ''s''"
  by (simp add: timeout_msg_def)

text \<open>
  Where the entries are dicts the \<^verbatim>\<open>ValueError\<close> does come, in the cycle of the fetch:
  with no config of the integration, with a first such config whose items are absent
  or no list, and with items that hold none of the repository's name.
\<close>

lemma well_typed_snapshot_fails_fast:
  assumes "\<forall>k<n. before_deadline env timeout_ms k
                 \<and> pending env workspace_id integration_id repository_name k"
    and "before_deadline env timeout_ms n"
    and "api env n workspace_id integration_id = Inr response"
    and "(config_list response = Some cs \<and> list_all (other_config integration_id) cs)
       \<or> (config_at response integration_id cs_before c cs_after
            \<and> \<not> isinstance_list (dict_get c ''items''))
       \<or> (config_at response integration_id cs_before c cs_after
            \<and> dict_get c ''items'' = JList items
            \<and> list_all (other_item repository_name) items)"
  shows "wait_for_repo_status_paused env workspace_id integration_id repository_name
            timeout_ms interval_ms
          = Some (Inl (ValueError
                    (if config_at response integration_id cs_before c cs_after
                        \<and> isinstance_list (dict_get c ''items'')
                     then not_found_msg repository_name else invalid_config_msg)),
                  stopped_in_cycle workspace_id integration_id interval_ms n)
       \<and> fetch_count (events (stopped_in_cycle workspace_id integration_id interval_ms n)) = Suc n
       \<and> sleep_count (events (stopped_in_cycle workspace_id integration_id interval_ms n)) = n"
proof -
  let ?msg = "if config_at response integration_id cs_before c cs_after
                        \<and> isinstance_list (dict_get c ''items'')
                     then not_found_msg repository_name else invalid_config_msg"
  have "check_response response integration_id repository_name
          = (Inl (ValueError ?msg) :: 'a py_error + json option)"
    using assms(4)
  proof (elim disjE conjE)
    assume a: "config_list response = Some cs" "list_all (other_config integration_id) cs"
    then show ?thesis
      using no_config_not_config_at[OF a] by (simp add: check_response_no_config)
  next
    assume a: "config_at response integration_id cs_before c cs_after"
      "\<not> isinstance_list (dict_get c ''items'')"
    then show ?thesis
      by (simp add: check_response_no_items)
  next
    assume a: "config_at response integration_id cs_before c cs_after"
      "dict_get c ''items'' = JList items" "list_all (other_item repository_name) items"
    then show ?thesis
      by (simp add: check_response_no_item)
  qed
  then have "verdict env workspace_id integration_id repository_name n = Inl (ValueError ?msg)"
    using assms(3) by (simp add: verdict_def)
  then show ?thesis
    by (simp add: run_in_cycle[OF assms(1,2)] stopped_counts)
qed

text \<open>Scenario B of the specification: only other/repo is listed.\<close>

lemma scenario_b_fails_fast:
  "wait_for_repo_status_paused env_scenario_b 1 456 ''org/repo'' 15000 1000
     = Some (Inl (ValueError (not_found_msg ''org/repo'')), stopped_in_cycle 1 456 1000 0)
   \<and> fetch_count (events (stopped_in_cycle 1 456 1000 0)) = 1
   \<and> sleep_count (events (stopped_in_cycle 1 456 1000 0)) = 0"
  using well_typed_snapshot_fails_fast[where n = 0 and env = env_scenario_b
      and timeout_ms = 15000 and workspace_id = 1 and integration_id = 456
      and repository_name = "''org/repo''" and response = "snapshot_of [JDict item_other]"
      and cs_before = "[]" and c = "config_of [JDict item_other]" and cs_after = "[]"
      and items = "[JDict item_other]" and interval_ms = 1000 and cs = "[]"]
  by (simp add: env_scenario_b_def shape_defs eval_defs)

text \<open>
  A run that ends otherwise than by the deadline is repeated by every run on the same
  responses that the deadline does not end.
\<close>

lemma same_fetches_transfer:
  assumes api: "api env' = api env"
    and ret: "wait_for_repo_status_paused env w i s t iv = Some (r, wd)"
    and nt: "r \<noteq> Inl (TimeoutError (timeout_msg s t))"
    and nt': "map_option fst (wait_for_repo_status_paused env' w i s t iv)
                \<noteq> Some (Inl (TimeoutError (timeout_msg s t)))"
  shows "wait_for_repo_status_paused env' w i s t iv = Some (r, wd)"
proof -
  have same: "verdict env' w i s k = verdict env w i s k" for k
    using api by (simp add: verdict_def)
  then have pend: "pending env' w i s k = pending env w i s k" for k
    by (simp add: pending_def)
  from ret obtain n where n: "\<forall>k<n. before_deadline env t k \<and> pending env w i s k"
    "ends_at env w i s t iv n (r, wd)"
    unfolding wait_returns_iff by (elim exE conjE)
  from ends_at_inside[OF n(2) nt] have inside: "before_deadline env t n"
    "verdict env w i s n \<noteq> Inr None"
    by simp_all
  have early: "before_deadline env' t k" if "k \<le> n" for k
    using that
  proof (induction k rule: less_induct)
    case (less k)
    show ?case
    proof (rule ccontr)
      assume late: "\<not> before_deadline env' t k"
      have "\<forall>j<k. before_deadline env' t j \<and> pending env' w i s j"
        using less n(1) by (simp add: pend)
      from run_times_out[OF this late] nt' show False by simp
    qed
  qed
  have run': "\<forall>k<n. before_deadline env' t k \<and> pending env' w i s k"
    using early n(1) by (simp add: pend)
  have "ends_at env' w i s t iv n (r, wd)"
    using n(2) inside(1) early[of n] by (simp add: ends_at_def same)
  with run' show ?thesis by (rule run_ends)
qed

section \<open>The claims\<close>

text \<open>
  C1 (as amended). In every poll cycle that is entered and whose fetch returns a
  response in which the first config of the integration has, as the first item of the
  repository's name, an item with status PAUSED, the method returns that item in that
  cycle: the fetch of the cycle is the last awaited call, so cycle \<open>n\<close> ends after
  \<open>n + 1\<close> fetches and \<open>n\<close> sleeps, and a match in the first cycle costs one fetch and
  no sleep.
\<close>

theorem paused_first_match_returns:
  assumes "\<forall>k<n. before_deadline env timeout_ms k
                 \<and> pending env workspace_id integration_id repository_name k"
    and "before_deadline env timeout_ms n"
    and "api env n workspace_id integration_id = Inr response"
    and "config_at response integration_id cs_before c cs_after"
    and "item_at c repository_name before item after"
    and "map_of item ''status'' = Some (JStr ''PAUSED'')"
  shows "wait_for_repo_status_paused env workspace_id integration_id repository_name
           timeout_ms interval_ms
         = Some (Inr (JDict item), stopped_in_cycle workspace_id integration_id interval_ms n)
       \<and> fetch_count (events (stopped_in_cycle workspace_id integration_id interval_ms n)) = Suc n
       \<and> sleep_count (events (stopped_in_cycle workspace_id integration_id interval_ms n)) = n
       \<and> last (events (stopped_in_cycle workspace_id integration_id interval_ms n))
           = Fetch workspace_id integration_id"
proof -
  have "verdict env workspace_id integration_id repository_name n = Inr (Some (JDict item))"
    using assms(3,6) check_response_item_at[OF assms(4,5)]
    by (simp add: verdict_def check_status_def)
  then show ?thesis
    by (simp add: run_in_cycle[OF assms(1,2)] stopped_counts)
qed

text \<open>Scenario A of the specification: the item comes back after exactly three fetches.\<close>

theorem paused_first_match_returns_witness:
  "wait_for_repo_status_paused env_scenario_a 1 456 ''org/repo'' 5000 100
     = Some (Inr (JDict item_paused), stopped_in_cycle 1 456 100 (Suc (Suc 0)))
   \<and> fetch_count (events (stopped_in_cycle 1 456 100 (Suc (Suc 0)))) = 3
   \<and> sleep_count (events (stopped_in_cycle 1 456 100 (Suc (Suc 0)))) = 2"
  using paused_first_match_returns[of "Suc (Suc 0)" env_scenario_a 5000 1 456 "''org/repo''"
      "snapshot_of [JDict item_paused]" "[]" "config_of [JDict item_paused]" "[]" "[]"
      item_paused "[]" 100]
  by (simp add: env_scenario_a_def shape_defs eval_defs less_Suc_eq)

text \<open>
  C1 as stated asks only that the config contains an item of the name with status
  PAUSED. Here it does, behind an item of the same name that is DISCOVERED; the first
  cycle is entered, and the method sleeps and then times out instead of returning.
\<close>

theorem paused_item_behind_namesake_counterexample:
  "api env_duplicate 0 1 456 = Inr (snapshot_of [JDict item_discovered, JDict item_paused])
   \<and> dict_get item_paused ''name'' = JStr ''org/repo''
   \<and> dict_get item_paused ''status'' = JStr ''PAUSED''
   \<and> before_deadline env_duplicate 100 0
   \<and> wait_for_repo_status_paused env_duplicate 1 456 ''org/repo'' 100 100
       = Some (Inl (TimeoutError (timeout_msg ''org/repo'' 100)), timed_out_at 1 456 100 (Suc 0))
   \<and> sleep_count (events (timed_out_at 1 456 100 (Suc 0))) = 1"
  using run_times_out[of "Suc 0" env_duplicate 100 1 456 "''org/repo''" 100]
  by (simp add: env_duplicate_def shape_defs eval_defs timed_out_counts)

text \<open>
  C2. A response with no config of the integration, or with none of the repository's
  name among the items, is to end the run with \<^verbatim>\<open>ValueError\<close>, as the docstring says of
  an invalid configuration. Two such responses on the first fetch: in the first the
  value of \<^verbatim>\<open>configuration\<close> is \<^verbatim>\<open>None\<close>, so the default of line 103 is not taken and
  line 105 iterates \<^verbatim>\<open>None\<close>; in the second the items list holds \<^verbatim>\<open>None\<close>, and line 110
  calls \<^verbatim>\<open>.get\<close> on it. The run ends after one fetch and no sleep in both, with
  \<^verbatim>\<open>TypeError\<close> and with \<^verbatim>\<open>AttributeError\<close>.
\<close>

theorem invalid_snapshot_other_exceptions:
  "wait_for_repo_status_paused env_null_config 1 456 ''org/repo'' 15000 1000
     = Some (Inl TypeError, stopped_in_cycle 1 456 1000 0)
   \<and> wait_for_repo_status_paused env_null_item 1 456 ''org/repo'' 15000 1000
     = Some (Inl AttributeError, stopped_in_cycle 1 456 1000 0)"
  using run_in_cycle[of 0 env_null_config 15000 1 456 "''org/repo''" 1000]
    run_in_cycle[of 0 env_null_item 15000 1 456 "''org/repo''" 1000]
  by (simp add: env_null_config_def env_null_item_def shape_defs eval_defs)

text \<open>
  C5. When the fetch of an entered cycle raises, the method ends there with that same
  exception: it is neither a \<^verbatim>\<open>ValueError\<close> nor a \<^verbatim>\<open>TimeoutError\<close>, and the failed
  fetch is the last awaited call.
\<close>

theorem transport_error_propagates:
  assumes "\<forall>k<n. before_deadline env timeout_ms k
                 \<and> pending env workspace_id integration_id repository_name k"
    and "before_deadline env timeout_ms n"
    and "api env n workspace_id integration_id = Inl e"
  shows "wait_for_repo_status_paused env workspace_id integration_id repository_name
           timeout_ms interval_ms
         = Some (Inl (Raised e), stopped_in_cycle workspace_id integration_id interval_ms n)
       \<and> fetch_count (events (stopped_in_cycle workspace_id integration_id interval_ms n)) = Suc n
       \<and> sleep_count (events (stopped_in_cycle workspace_id integration_id interval_ms n)) = n
       \<and> last (events (stopped_in_cycle workspace_id integration_id interval_ms n))
           = Fetch workspace_id integration_id"
  using assms(3) by (simp add: run_in_cycle[OF assms(1,2)] verdict_def stopped_counts)

theorem transport_error_propagates_witness:
  "wait_for_repo_status_paused env_transport 1 456 ''org/repo'' 5000 100
     = Some (Inl (Raised ''connection reset''), stopped_in_cycle 1 456 100 (Suc 0))
   \<and> fetch_count (events (stopped_in_cycle 1 456 100 (Suc 0))) = 2
   \<and> sleep_count (events (stopped_in_cycle 1 456 100 (Suc 0))) = 1"
  using transport_error_propagates[where n = "Suc 0" and env = env_transport
      and timeout_ms = 5000 and workspace_id = 1 and integration_id = 456
      and repository_name = "''org/repo''" and e = "''connection reset''" and interval_ms = 100]
  by (simp add: env_transport_def shape_defs eval_defs)

text \<open>
  C9. When the first item of the repository's name has no status key, the method
  raises \<^verbatim>\<open>KeyError\<close> for that key, which is none of the failures the specification
  names.
\<close>

theorem missing_status_raises_key_error:
  assumes "\<forall>k<n. before_deadline env timeout_ms k
                 \<and> pending env workspace_id integration_id repository_name k"
    and "before_deadline env timeout_ms n"
    and "api env n workspace_id integration_id = Inr response"
    and "config_at response integration_id cs_before c cs_after"
    and "item_at c repository_name before item after"
    and "map_of item ''status'' = None"
  shows "wait_for_repo_status_paused env workspace_id integration_id repository_name
           timeout_ms interval_ms
         = Some (Inl (KeyError ''status''),
                 stopped_in_cycle workspace_id integration_id interval_ms n)"
proof -
  have "verdict env workspace_id integration_id repository_name n = Inl (KeyError ''status'')"
    using assms(3,6) check_response_item_at[OF assms(4,5)]
    by (simp add: verdict_def check_status_def)
  then show ?thesis
    by (simp add: run_in_cycle[OF assms(1,2)])
qed

theorem missing_status_raises_key_error_witness:
  "wait_for_repo_status_paused env_no_status 1 456 ''org/repo'' 15000 1000
     = Some (Inl (KeyError ''status''), stopped_in_cycle 1 456 1000 0)"
  using missing_status_raises_key_error[where n = 0 and env = env_no_status
      and timeout_ms = 15000 and workspace_id = 1 and integration_id = 456
      and repository_name = "''org/repo''" and response = "snapshot_of [JDict item_no_status]"
      and cs_before = "[]" and c = "config_of [JDict item_no_status]" and cs_after = "[]"
      and before = "[]" and item = item_no_status and after = "[]" and interval_ms = 1000]
  by (simp add: env_no_status_def shape_defs eval_defs)

text \<open>
  C10. With a timeout of zero or less the first loop condition is already false: no
  fetch, no sleep, \<^verbatim>\<open>TimeoutError\<close>. The clock must not have run backwards between the
  reading of line 97 and that of line 100.
\<close>

theorem nonpositive_timeout_never_fetches:
  assumes "timeout_ms \<le> 0" and "clock env 0 \<le> clock env 1"
  shows "wait_for_repo_status_paused env workspace_id integration_id repository_name
           timeout_ms interval_ms
         = Some (Inl (TimeoutError (timeout_msg repository_name timeout_ms)),
                 timed_out_at workspace_id integration_id interval_ms 0)
       \<and> api_calls (timed_out_at workspace_id integration_id interval_ms 0) = 0
       \<and> events (timed_out_at workspace_id integration_id interval_ms 0) = []"
proof -
  have "0 \<le> (clock env (Suc 0) - clock env 0) * 1000"
    using assms(2) by simp
  moreover have "(of_int timeout_ms :: rat) \<le> 0"
    using assms(1) by simp
  ultimately have "\<not> before_deadline env timeout_ms 0"
    unfolding before_deadline_def by linarith
  then show ?thesis
    using run_times_out[of 0 env timeout_ms workspace_id integration_id repository_name interval_ms]
    by (simp add: timed_out_at_def cycles_def)
qed

theorem nonpositive_timeout_never_fetches_witness:
  "wait_for_repo_status_paused env_scenario_a 1 456 ''org/repo'' 0 100
     = Some (Inl (TimeoutError (timeout_msg ''org/repo'' 0)), timed_out_at 1 456 100 0)
   \<and> api_calls (timed_out_at 1 456 100 0) = 0
   \<and> events (timed_out_at 1 456 100 0) = []"
  using nonpositive_timeout_never_fetches[where timeout_ms = 0 and env = env_scenario_a
      and workspace_id = 1 and integration_id = 456 and repository_name = "''org/repo''"
      and interval_ms = 100]
  by (simp add: env_scenario_a_def sleep_clock_def)

text \<open>
  C4. With \<open>0 < timeout \<le> interval\<close> and a first response in which the repository is
  found but not PAUSED, the method fetches exactly once, sleeps once and then raises
  \<^verbatim>\<open>TimeoutError\<close>. The first loop condition is read before the deadline, the clock
  does not run backwards, and the sleep lasts at least the interval.
\<close>

theorem long_interval_one_fetch:
  assumes "0 < timeout_ms" and "timeout_ms \<le> interval_ms"
    and "before_deadline env timeout_ms 0"
    and "api env 0 workspace_id integration_id = Inr response"
    and "config_at response integration_id cs_before c cs_after"
    and "item_at c repository_name before item after"
    and "map_of item ''status'' = Some status"
    and "\<not> eq_str status ''PAUSED''"
    and "clock env 0 \<le> clock env 1"
    and "clock env 1 + of_int interval_ms / 1000 \<le> clock env 2"
  shows "wait_for_repo_status_paused env workspace_id integration_id repository_name
           timeout_ms interval_ms
         = Some (Inl (TimeoutError (timeout_msg repository_name timeout_ms)),
                 timed_out_at workspace_id integration_id interval_ms (Suc 0))
       \<and> fetch_count (events (timed_out_at workspace_id integration_id interval_ms (Suc 0))) = 1
       \<and> sleep_count (events (timed_out_at workspace_id integration_id interval_ms (Suc 0))) = 1"
proof -
  have "verdict env workspace_id integration_id repository_name 0 = Inr None"
    using assms(4,7,8) check_response_item_at[OF assms(5,6)]
    by (simp add: verdict_def check_status_def)
  then have first: "\<forall>k<Suc 0. before_deadline env timeout_ms k
                 \<and> pending env workspace_id integration_id repository_name k"
    using assms(3) by (simp add: pending_def)
  have "(of_int timeout_ms :: rat) \<le> of_int interval_ms"
    using assms(2) by simp
  moreover have "of_int interval_ms \<le> (clock env 2 - clock env 0) * 1000"
    using assms(9,10) by (simp add: field_simps)
  ultimately have "\<not> before_deadline env timeout_ms (Suc 0)"
    unfolding before_deadline_def by (simp add: numeral_2_eq_2)
  from run_times_out[OF first this] show ?thesis
    by (simp add: timed_out_counts)
qed

theorem long_interval_one_fetch_witness:
  "wait_for_repo_status_paused env_scenario_c 1 456 ''org/repo'' 100 100
     = Some (Inl (TimeoutError (timeout_msg ''org/repo'' 100)), timed_out_at 1 456 100 (Suc 0))
   \<and> fetch_count (events (timed_out_at 1 456 100 (Suc 0))) = 1
   \<and> sleep_count (events (timed_out_at 1 456 100 (Suc 0))) = 1"
  using long_interval_one_fetch[where timeout_ms = 100 and interval_ms = 100
      and env = env_scenario_c and workspace_id = 1 and integration_id = 456
      and repository_name = "''org/repo''" and response = "snapshot_of [JDict item_discovered]"
      and cs_before = "[]" and c = "config_of [JDict item_discovered]" and cs_after = "[]"
      and before = "[]" and item = item_discovered and after = "[]"
      and status = "JStr ''DISCOVERED''"]
  by (simp add: env_scenario_c_def shape_defs eval_defs)

text \<open>
  C3 (as amended). Let every fetch return a response in which the repository is found
  but not PAUSED, let the interval be positive, the clock not run backwards and every
  sleep last at least the interval. Then the method raises \<^verbatim>\<open>TimeoutError\<close> at the first
  loop condition read at or after the deadline, after \<open>n\<close> fetches and \<open>n\<close> sleeps with
  \<open>n < timeout / interval + 1\<close>. When time passes in the sleeps only, each exactly one
  interval long, also \<open>timeout / interval \<le> n\<close>, so \<open>n\<close> is within 1 of the quotient.
\<close>

theorem timeout_after_bounded_fetches:
  assumes "0 < interval_ms" and "0 < timeout_ms"
    and "\<forall>k. pending env workspace_id integration_id repository_name k"
    and "clock env 0 \<le> clock env 1"
    and "\<forall>k. clock env (Suc k) + of_int interval_ms / 1000 \<le> clock env (Suc (Suc k))"
  shows "\<exists>n. wait_for_repo_status_paused env workspace_id integration_id repository_name
                timeout_ms interval_ms
              = Some (Inl (TimeoutError (timeout_msg repository_name timeout_ms)),
                      timed_out_at workspace_id integration_id interval_ms n)
            \<and> (\<forall>k<n. before_deadline env timeout_ms k)
            \<and> \<not> before_deadline env timeout_ms n
            \<and> fetch_count (events (timed_out_at workspace_id integration_id interval_ms n)) = n
            \<and> (of_nat n :: rat) < of_int timeout_ms / of_int interval_ms + 1
            \<and> (clock env 1 = clock env 0
                 \<and> (\<forall>k. clock env (Suc (Suc k)) = clock env (Suc k) + of_int interval_ms / 1000)
               \<longrightarrow> of_int timeout_ms / of_int interval_ms \<le> (of_nat n :: rat))"
proof -
  let ?late = "\<lambda>n. \<not> before_deadline env timeout_ms n"
  have iv: "(0::rat) < of_int interval_ms" using assms(1) by simp
  have "?late (nat timeout_ms)"
  proof
    assume "before_deadline env timeout_ms (nat timeout_ms)"
    from before_deadline_bound[OF assms(4,5) this]
    have "(of_int timeout_ms :: rat) * of_int interval_ms < of_int timeout_ms"
      using assms(2) by simp
    moreover have "(of_int timeout_ms :: rat) * 1 \<le> of_int timeout_ms * of_int interval_ms"
      using assms(1,2) by (intro mult_left_mono) simp_all
    ultimately show False by simp
  qed
  then have ex: "\<exists>n. ?late n" ..
  define n where "n = (LEAST n. ?late n)"
  have late: "?late n"
    unfolding n_def using ex by (rule LeastI_ex)
  have early: "before_deadline env timeout_ms k" if "k < n" for k
    using not_less_Least[of k ?late] that unfolding n_def by blast
  have run: "\<forall>k<n. before_deadline env timeout_ms k
                 \<and> pending env workspace_id integration_id repository_name k"
    using early assms(3) by simp
  have bound: "(of_nat n :: rat) < of_int timeout_ms / of_int interval_ms + 1"
  proof (cases n)
    case 0
    have "(0::rat) \<le> of_int timeout_ms / of_int interval_ms"
      using assms(1,2) by simp
    with 0 show ?thesis by simp
  next
    case (Suc m)
    then have "before_deadline env timeout_ms m" using early by simp
    from before_deadline_bound[OF assms(4,5) this]
    have "(of_nat m :: rat) < of_int timeout_ms / of_int interval_ms"
      using iv by (simp add: pos_less_divide_eq)
    with Suc show ?thesis by simp
  qed
  have exact: "of_int timeout_ms / of_int interval_ms \<le> (of_nat n :: rat)"
    if "clock env 1 = clock env 0
        \<and> (\<forall>k. clock env (Suc (Suc k)) = clock env (Suc k) + of_int interval_ms / 1000)"
  proof -
    have "clock env (Suc n) = clock env 0 + of_nat n * (of_int interval_ms / 1000)"
      using that elapsed_exactly[of env "of_int interval_ms / 1000" n] by simp
    then have "(clock env (Suc n) - clock env 0) * 1000 = of_nat n * of_int interval_ms"
      by simp
    with late have "(of_int timeout_ms :: rat) \<le> of_nat n * of_int interval_ms"
      unfolding before_deadline_def by simp
    then show ?thesis
      using iv by (simp add: pos_divide_le_eq)
  qed
  from run_times_out[OF run late] early late bound exact show ?thesis
    by (intro exI[of _ n]) (simp add: timed_out_counts)
qed

text \<open>Scenario C of the specification: three fetches, then the \<^verbatim>\<open>TimeoutError\<close>.\<close>

theorem timeout_after_bounded_fetches_witness:
  "wait_for_repo_status_paused env_scenario_c 1 456 ''org/repo'' 300 100
     = Some (Inl (TimeoutError (timeout_msg ''org/repo'' 300)), timed_out_at 1 456 100 3)
   \<and> fetch_count (events (timed_out_at 1 456 100 3)) = 3"
proof -
  from timeout_after_bounded_fetches[where env = env_scenario_c and timeout_ms = 300
      and interval_ms = 100 and workspace_id = 1 and integration_id = 456
      and repository_name = "''org/repo''"]
  obtain n where n: "wait_for_repo_status_paused env_scenario_c 1 456 ''org/repo'' 300 100
          = Some (Inl (TimeoutError (timeout_msg ''org/repo'' 300)), timed_out_at 1 456 100 n)"
      "fetch_count (events (timed_out_at 1 456 100 n)) = n"
      "(of_nat n :: rat) < 4" "3 \<le> (of_nat n :: rat)"
    by (simp add: env_scenario_c_def shape_defs eval_defs field_simps) blast
  from n(3) have "n < 4" by (metis of_nat_less_iff of_nat_numeral)
  moreover from n(4) have "3 \<le> n" by (metis of_nat_le_iff of_nat_numeral)
  ultimately have "n = 3" by simp
  with n(1,2) show ?thesis by simp
qed

text \<open>
  C3 as stated puts the number of fetches within 1 of \<open>timeout / interval\<close> whatever the
  fetches cost. With a timeout of 300 ms, an interval of 100 ms and a first fetch that
  takes most of a second, the method fetches once, and 1 is not within 1 of 3.
\<close>

theorem slow_fetch_counterexample:
  "wait_for_repo_status_paused env_slow_fetch 1 456 ''org/repo'' 300 100
     = Some (Inl (TimeoutError (timeout_msg ''org/repo'' 300)), timed_out_at 1 456 100 (Suc 0))
   \<and> fetch_count (events (timed_out_at 1 456 100 (Suc 0))) = 1
   \<and> pending env_slow_fetch 1 456 ''org/repo'' 0
   \<and> pending env_slow_fetch 1 456 ''org/repo'' 1
   \<and> \<not> \<bar>1 - (300 :: rat) / 100\<bar> \<le> 1"
  using run_times_out[of "Suc 0" env_slow_fetch 300 1 456 "''org/repo''" 100]
  by (simp add: env_slow_fetch_def shape_defs eval_defs timed_out_counts)

text \<open>
  C7. Let the first item of the repository's name in the response of cycle \<open>n\<close> be
  \<open>item\<close>. Whatever stands behind it, items of the same name included, has no part
  in the run: putting any other response with the same first item of the name in its
  place leaves the outcome as it is. When the cycle is reached and \<open>item\<close> is PAUSED,
  it is \<open>item\<close> that is returned.
\<close>

theorem later_items_never_matter:
  assumes "api env n workspace_id integration_id = Inr response"
    and "config_at response integration_id cs_before c cs_after"
    and "item_at c repository_name before item after"
    and "config_at response' integration_id cs_before' c' cs_after'"
    and "item_at c' repository_name before' item after'"
  shows "wait_for_repo_status_paused (env\<lparr>api := (api env)(n := \<lambda>w i. Inr response')\<rparr>)
           workspace_id integration_id repository_name timeout_ms interval_ms
         = wait_for_repo_status_paused env
             workspace_id integration_id repository_name timeout_ms interval_ms
       \<and> ((\<forall>k<n. before_deadline env timeout_ms k
                  \<and> pending env workspace_id integration_id repository_name k)
            \<and> before_deadline env timeout_ms n
            \<and> map_of item ''status'' = Some (JStr ''PAUSED'')
          \<longrightarrow> wait_for_repo_status_paused env
                workspace_id integration_id repository_name timeout_ms interval_ms
              = Some (Inr (JDict item),
                      stopped_in_cycle workspace_id integration_id interval_ms n))"
proof
  let ?env' = "env\<lparr>api := (api env)(n := \<lambda>w i. Inr response')\<rparr>"
  have "verdict ?env' workspace_id integration_id repository_name k
      = verdict env workspace_id integration_id repository_name k" for k
  proof (cases "k = n")
    case True
    have "check_response response integration_id repository_name
            = (check_status item :: 'a py_error + json option)"
      by (rule check_response_item_at[OF assms(2,3)])
    moreover have "check_response response' integration_id repository_name
            = (check_status item :: 'a py_error + json option)"
      by (rule check_response_item_at[OF assms(4,5)])
    ultimately show ?thesis
      using True assms(1) by (simp add: verdict_def)
  next
    case False
    then show ?thesis by (simp add: verdict_def)
  qed
  then show "wait_for_repo_status_paused ?env'
           workspace_id integration_id repository_name timeout_ms interval_ms
         = wait_for_repo_status_paused env
             workspace_id integration_id repository_name timeout_ms interval_ms"
    by (intro wait_cong) simp_all
next
  show "(\<forall>k<n. before_deadline env timeout_ms k
                  \<and> pending env workspace_id integration_id repository_name k)
            \<and> before_deadline env timeout_ms n
            \<and> map_of item ''status'' = Some (JStr ''PAUSED'')
          \<longrightarrow> wait_for_repo_status_paused env
                workspace_id integration_id repository_name timeout_ms interval_ms
              = Some (Inr (JDict item),
                      stopped_in_cycle workspace_id integration_id interval_ms n)"
  proof (intro impI, elim conjE)
    assume run: "\<forall>k<n. before_deadline env timeout_ms k
                  \<and> pending env workspace_id integration_id repository_name k"
      and bd: "before_deadline env timeout_ms n"
      and st: "map_of item ''status'' = Some (JStr ''PAUSED'')"
    have "verdict env workspace_id integration_id repository_name n = Inr (Some (JDict item))"
      using assms(1) st check_response_item_at[OF assms(2,3)]
      by (simp add: verdict_def check_status_def)
    then show "wait_for_repo_status_paused env
                workspace_id integration_id repository_name timeout_ms interval_ms
              = Some (Inr (JDict item),
                      stopped_in_cycle workspace_id integration_id interval_ms n)"
      by (simp add: run_in_cycle[OF run bd])
  qed
qed

theorem later_items_never_matter_witness:
  "wait_for_repo_status_paused
     (env_twin_behind\<lparr>api := (api env_twin_behind)(0 := \<lambda>w i. Inr (snapshot_of [JDict item_paused]))\<rparr>)
     1 456 ''org/repo'' 5000 100
   = wait_for_repo_status_paused env_twin_behind 1 456 ''org/repo'' 5000 100
   \<and> wait_for_repo_status_paused env_twin_behind 1 456 ''org/repo'' 5000 100
       = Some (Inr (JDict item_paused), stopped_in_cycle 1 456 100 0)"
  using later_items_never_matter[where env = env_twin_behind and n = 0 and workspace_id = 1
      and integration_id = 456 and repository_name = "''org/repo''"
      and response = "snapshot_of [JDict item_paused, JDict item_discovered]"
      and cs_before = "[]" and c = "config_of [JDict item_paused, JDict item_discovered]"
      and cs_after = "[]" and before = "[]" and item = item_paused
      and after = "[JDict item_discovered]"
      and response' = "snapshot_of [JDict item_paused]"
      and cs_before' = "[]" and c' = "config_of [JDict item_paused]" and cs_after' = "[]"
      and before' = "[]" and after' = "[]" and timeout_ms = 5000 and interval_ms = 100]
  by (simp add: env_twin_behind_def shape_defs eval_defs)

text \<open>
  C8 (as amended). Two calls with the same arguments and the same fetch collaborator
  have the same outcome (the same item, the same exception with the same message, or
  no return at all, and the same awaited calls), unless one of them ends in the
  \<^verbatim>\<open>TimeoutError\<close> of line 123: which cycle the deadline cuts off is decided by the clock,
  not by the responses. Nothing is assumed of the two clocks, nor that the calls return.
\<close>

theorem same_fetches_same_outcome_or_timeout:
  assumes "api env' = api env"
  shows "wait_for_repo_status_paused env' workspace_id integration_id repository_name
           timeout_ms interval_ms
         = wait_for_repo_status_paused env workspace_id integration_id repository_name
             timeout_ms interval_ms
       \<or> map_option fst (wait_for_repo_status_paused env workspace_id integration_id
                           repository_name timeout_ms interval_ms)
           = Some (Inl (TimeoutError (timeout_msg repository_name timeout_ms)))
       \<or> map_option fst (wait_for_repo_status_paused env' workspace_id integration_id
                           repository_name timeout_ms interval_ms)
           = Some (Inl (TimeoutError (timeout_msg repository_name timeout_ms)))"
proof -
  let ?run = "wait_for_repo_status_paused env workspace_id integration_id repository_name
             timeout_ms interval_ms"
  let ?run' = "wait_for_repo_status_paused env' workspace_id integration_id repository_name
             timeout_ms interval_ms"
  let ?timeout = "Some (Inl (TimeoutError (timeout_msg repository_name timeout_ms)))"
  show ?thesis
  proof (cases "map_option fst ?run = ?timeout \<or> map_option fst ?run' = ?timeout")
    case True
    then show ?thesis by blast
  next
    case False
    then have nt: "map_option fst ?run \<noteq> ?timeout" and nt': "map_option fst ?run' \<noteq> ?timeout"
      by simp_all
    have api': "api env = api env'" using assms by simp
    have "?run' = ?run"
    proof (cases ?run)
      case (Some y)
      obtain r wd where y: "y = (r, wd)" by (cases y)
      with Some nt have "r \<noteq> Inl (TimeoutError (timeout_msg repository_name timeout_ms))"
        by auto
      from same_fetches_transfer[OF assms Some[unfolded y] this nt'] Some y
      show ?thesis by simp
    next
      case None
      show ?thesis
      proof (cases ?run')
        case none': None
        with None show ?thesis by simp
      next
        case (Some y')
        obtain r' wd' where y': "y' = (r', wd')" by (cases y')
        with Some nt' have "r' \<noteq> Inl (TimeoutError (timeout_msg repository_name timeout_ms))"
          by auto
        from same_fetches_transfer[OF api' Some[unfolded y'] this nt] None
        show ?thesis by simp
      qed
    qed
    then show ?thesis by simp
  qed
qed

text \<open>The same responses with quick and with slow fetches, and time enough for both.\<close>

theorem same_fetches_same_outcome_or_timeout_witness:
  "api env_slow = api env_fast
   \<and> wait_for_repo_status_paused env_slow 1 456 ''org/repo'' 5000 100
       = wait_for_repo_status_paused env_fast 1 456 ''org/repo'' 5000 100
   \<and> wait_for_repo_status_paused env_fast 1 456 ''org/repo'' 5000 100
       = Some (Inr (JDict item_paused), stopped_in_cycle 1 456 100 (Suc 0))"
proof -
  have fast: "wait_for_repo_status_paused env_fast 1 456 ''org/repo'' 5000 100
       = Some (Inr (JDict item_paused), stopped_in_cycle 1 456 100 (Suc 0))"
    using run_in_cycle[of "Suc 0" env_fast 5000 1 456 "''org/repo''" 100]
    by (simp add: env_fast_def shape_defs eval_defs)
  have slow: "map_option fst (wait_for_repo_status_paused env_slow 1 456 ''org/repo'' 5000 100)
       = Some (Inr (JDict item_paused))"
    using run_in_cycle[of "Suc 0" env_slow 5000 1 456 "''org/repo''" 100]
    by (simp add: env_slow_def shape_defs eval_defs)
  have api: "api env_slow = api env_fast"
    by (simp add: env_slow_def env_fast_def)
  from same_fetches_same_outcome_or_timeout[OF api, of 1 456 "''org/repo''" 5000 100]
    fast slow api
  show ?thesis by simp
qed

text \<open>
  C8 as stated: same arguments, same responses in the same order, timeout 300 ms and
  interval 100 ms. With quick fetches the second response, PAUSED, is returned; with a
  slow first fetch the deadline has passed before the second fetch.
\<close>

theorem clock_decides_outcome_counterexample:
  "api env_slow = api env_fast
   \<and> wait_for_repo_status_paused env_fast 1 456 ''org/repo'' 300 100
       = Some (Inr (JDict item_paused), stopped_in_cycle 1 456 100 (Suc 0))
   \<and> wait_for_repo_status_paused env_slow 1 456 ''org/repo'' 300 100
       = Some (Inl (TimeoutError (timeout_msg ''org/repo'' 300)), timed_out_at 1 456 100 (Suc 0))"
  using run_in_cycle[of "Suc 0" env_fast 300 1 456 "''org/repo''" 100]
    run_times_out[of "Suc 0" env_slow 300 1 456 "''org/repo''" 100]
  by (simp add: env_slow_def env_fast_def shape_defs eval_defs)

text \<open>
  C6. Scenario C of the specification, with its timeout of 300 ms: the message of the
  \<^verbatim>\<open>TimeoutError\<close> names the repository and PAUSED, and gives the time as
  \<^verbatim>\<open>timeout_ms // 1000\<close>, here "within 0s".
\<close>

theorem timeout_message_whole_seconds:
  "wait_for_repo_status_paused env_scenario_c 1 456 ''org/repo'' 300 100
     = Some (Inl (TimeoutError
               (stopwatch @ '' Timeout: Repo '' @ [CHR 0x27] @ ''org/repo'' @ [CHR 0x27]
                  @ '' status did not become '' @ [CHR 0x27] @ ''PAUSED'' @ [CHR 0x27]
                  @ '' within 0s'')),
             timed_out_at 1 456 100 (Suc (Suc (Suc 0))))"
  using run_times_out[of "Suc (Suc (Suc 0))" env_scenario_c 300 1 456 "''org/repo''" 100]
  by (simp add: env_scenario_c_def shape_defs eval_defs less_Suc_eq timeout_msg_def
      str_int_def str_nat.simps digit_char_def)

end
